theory Spec2Isabelle
  imports Complex_Main "HOL-Library.Word" "HOL-Library.Multiset"
begin

section \<open>Arithmetic of the machine\<close>

text \<open>
  \<^verbatim>\<open>Fractal.cpp\<close> computes with \<^verbatim>\<open>float\<close>, \<^verbatim>\<open>double\<close> and \<^verbatim>\<open>std::complex<float>\<close>.
  Their operations belong to the hardware and to the C++ library, not to the repository,
  so the model takes them as a parameter: a record of operations over a type \<open>'f\<close> of
  single-precision values and a type \<open>'d\<close> of double-precision values. Whatever is proved
  for every such record holds for IEEE-754 arithmetic in particular.
\<close>

record 'f cplx =
  re :: 'f
  im :: 'f

record ('f, 'd) arith =
  flit :: "rat \<Rightarrow> 'f"            \<comment> \<open>a \<^verbatim>\<open>float\<close> literal such as \<^verbatim>\<open>3.0f\<close>\<close>
  dlit :: "rat \<Rightarrow> 'd"            \<comment> \<open>a \<^verbatim>\<open>double\<close> literal such as \<^verbatim>\<open>0.025\<close>\<close>
  fadd :: "'f \<Rightarrow> 'f \<Rightarrow> 'f"
  fsub :: "'f \<Rightarrow> 'f \<Rightarrow> 'f"
  fmul :: "'f \<Rightarrow> 'f \<Rightarrow> 'f"
  cmul :: "'f cplx \<Rightarrow> 'f cplx \<Rightarrow> 'f cplx"  \<comment> \<open>\<^verbatim>\<open>operator*\<close> of \<^verbatim>\<open>std::complex<float>\<close>\<close>
  cdiv :: "'f cplx \<Rightarrow> 'f cplx \<Rightarrow> 'f cplx"  \<comment> \<open>\<^verbatim>\<open>operator/\<close> of \<^verbatim>\<open>std::complex<float>\<close>\<close>
  dadd :: "'d \<Rightarrow> 'd \<Rightarrow> 'd"
  dsub :: "'d \<Rightarrow> 'd \<Rightarrow> 'd"
  dmul :: "'d \<Rightarrow> 'd \<Rightarrow> 'd"
  ddiv :: "'d \<Rightarrow> 'd \<Rightarrow> 'd"
  dabs :: "'d \<Rightarrow> 'd"            \<comment> \<open>\<^verbatim>\<open>std::abs\<close>\<close>
  dpow :: "'d \<Rightarrow> 'd \<Rightarrow> 'd"      \<comment> \<open>\<^verbatim>\<open>std::pow\<close>\<close>
  dlt :: "'d \<Rightarrow> 'd \<Rightarrow> bool"     \<comment> \<open>\<^verbatim>\<open><\<close> on \<^verbatim>\<open>double\<close>\<close>
  dle :: "'d \<Rightarrow> 'd \<Rightarrow> bool"     \<comment> \<open>\<^verbatim>\<open><=\<close> on \<^verbatim>\<open>double\<close>\<close>
  d_of_int :: "int \<Rightarrow> 'd"       \<comment> \<open>conversion of an integer (\<^verbatim>\<open>size_t\<close>, \<^verbatim>\<open>Sint32\<close>) to \<^verbatim>\<open>double\<close>\<close>
  d_of_f :: "'f \<Rightarrow> 'd"          \<comment> \<open>widening \<^verbatim>\<open>float\<close> to \<^verbatim>\<open>double\<close>\<close>
  f_of_d :: "'d \<Rightarrow> 'f"          \<comment> \<open>narrowing \<^verbatim>\<open>double\<close> to \<^verbatim>\<open>float\<close>\<close>
  fnan :: "'f \<Rightarrow> bool"          \<comment> \<open>the value is a NaN\<close>
  dnan :: "'d \<Rightarrow> bool"

text \<open>
  Sum, difference and scaling of \<^verbatim>\<open>std::complex<float>\<close> work on each component;
  product and quotient are the library's and stay parameters.
\<close>

definition cadd :: "('f, 'd, 'z) arith_scheme \<Rightarrow> 'f cplx \<Rightarrow> 'f cplx \<Rightarrow> 'f cplx" where
  "cadd A u v = \<lparr>re = fadd A (re u) (re v), im = fadd A (im u) (im v)\<rparr>"

definition csub :: "('f, 'd, 'z) arith_scheme \<Rightarrow> 'f cplx \<Rightarrow> 'f cplx \<Rightarrow> 'f cplx" where
  "csub A u v = \<lparr>re = fsub A (re u) (re v), im = fsub A (im u) (im v)\<rparr>"

definition cscale :: "('f, 'd, 'z) arith_scheme \<Rightarrow> 'f cplx \<Rightarrow> 'f \<Rightarrow> 'f cplx" where
  "cscale A u k = \<lparr>re = fmul A (re u) k, im = fmul A (im u) k\<rparr>"

section \<open>Constants\<close>

definition WIDTH :: nat where "WIDTH = 1024"
definition HEIGHT :: nat where "HEIGHT = 768"
definition ITERATION_COUNT :: "64 word" where "ITERATION_COUNT = 20"
definition FILL_INTENSITY :: "8 word" where "FILL_INTENSITY = 255"

section \<open>The kernel \<^verbatim>\<open>newton\<close>\<close>

text \<open>
  \<^verbatim>\<open>parallel_for(num_items, k)\<close> over the range \<open>{h, w}\<close> runs the kernel \<open>k\<close> once for
  every index \<open>(i[0], i[1])\<close> with \<open>i[0] < h\<close> and \<open>i[1] < w\<close>. Each kernel of
  \<^verbatim>\<open>newton\<close> reads and writes only the cells of its own index, so one schedule stands for
  all of them: the row-major one (lemmas \<open>seed_schedule\<close>, \<open>iterate_schedule\<close> and
  \<open>classify_schedule\<close> below).
\<close>

definition items :: "nat \<Rightarrow> nat \<Rightarrow> (nat \<times> nat) list" where
  "items h w = concat (map (\<lambda>r. map (\<lambda>c. (r, c)) [0..<w]) [0..<h])"

definition parallel_for :: "nat \<Rightarrow> nat \<Rightarrow> (nat \<times> nat \<Rightarrow> 's \<Rightarrow> 's) \<Rightarrow> 's \<Rightarrow> 's" where
  "parallel_for h w k s = fold k (items h w) s"

text \<open>The seed pass (lines 50 to 55): the two-dimensional accessor \<^verbatim>\<open>vec[i]\<close> is cell
  \<open>i[0] * w + i[1]\<close> of the row-major buffer.\<close>

definition seed_value :: "('f, 'd, 'z) arith_scheme \<Rightarrow> 'd \<Rightarrow> 'd \<Rightarrow> 'd \<Rightarrow> nat \<times> nat \<Rightarrow> 'f cplx" where
  "seed_value A unit left top' i =
     (let y = dsub A top' (dmul A unit (d_of_int A (int (fst i))));
          x = dadd A left (dmul A unit (d_of_int A (int (snd i))))
      in \<lparr>re = f_of_d A x, im = f_of_d A y\<rparr>)"

definition seed_kernel ::
  "('f, 'd, 'z) arith_scheme \<Rightarrow> nat \<Rightarrow> 'd \<Rightarrow> 'd \<Rightarrow> 'd \<Rightarrow> nat \<times> nat \<Rightarrow> 'f cplx list \<Rightarrow> 'f cplx list" where
  "seed_kernel A w unit left top' i vec = vec[fst i * w + snd i := seed_value A unit left top' i]"

text \<open>The body of the iterate pass (lines 61 to 65).\<close>

definition newton_step ::
  "('f, 'd, 'z) arith_scheme \<Rightarrow> 'f cplx \<Rightarrow> 'f cplx \<Rightarrow> 'f cplx \<Rightarrow> 'f cplx \<Rightarrow> 'f cplx" where
  "newton_step A sum_abc prod_sum prod_abc x =
     (let sqr = cmul A x x;
          v = csub A (cadd A (csub A (cmul A sqr x) (cmul A sum_abc sqr)) (cmul A prod_sum x)) prod_abc;
          d = cadd A (csub A (cscale A sqr (flit A 3)) (cscale A (cmul A sum_abc x) (flit A 2))) prod_sum
      in csub A x (cdiv A v d))"

definition iterate_kernel ::
  "('f, 'd, 'z) arith_scheme \<Rightarrow> 'f cplx \<Rightarrow> 'f cplx \<Rightarrow> 'f cplx \<Rightarrow> nat \<Rightarrow>
     nat \<times> nat \<Rightarrow> 'f cplx list \<Rightarrow> 'f cplx list" where
  "iterate_kernel A sum_abc prod_sum prod_abc w i vec =
     vec[fst i * w + snd i := newton_step A sum_abc prod_sum prod_abc (vec ! (fst i * w + snd i))]"

text \<open>The loop of lines 57 to 68: one pass over all cells for each of the \<^verbatim>\<open>iterations\<close>.\<close>

fun iterate_loop ::
  "('f, 'd, 'z) arith_scheme \<Rightarrow> 'f cplx \<Rightarrow> 'f cplx \<Rightarrow> 'f cplx \<Rightarrow> nat \<Rightarrow> nat \<Rightarrow>
     nat \<Rightarrow> 'f cplx list \<Rightarrow> 'f cplx list" where
  "iterate_loop A sum_abc prod_sum prod_abc h w 0 vec = vec"
| "iterate_loop A sum_abc prod_sum prod_abc h w (Suc n) vec =
     iterate_loop A sum_abc prod_sum prod_abc h w n
       (parallel_for h w (iterate_kernel A sum_abc prod_sum prod_abc w) vec)"

text \<open>The classify pass (lines 73 to 83). The squared distances are computed in
  \<^verbatim>\<open>float\<close> and stored in \<^verbatim>\<open>double\<close> variables.\<close>

definition hyp :: "('f, 'd, 'z) arith_scheme \<Rightarrow> 'f cplx \<Rightarrow> 'd" where
  "hyp A d = d_of_f A (fadd A (fmul A (re d) (re d)) (fmul A (im d) (im d)))"

definition classify_kernel ::
  "('f, 'd, 'z) arith_scheme \<Rightarrow> 'f cplx \<Rightarrow> 'f cplx \<Rightarrow> 'f cplx \<Rightarrow> nat \<Rightarrow>
     'f cplx list \<Rightarrow> nat \<times> nat \<Rightarrow> 8 word list \<Rightarrow> 8 word list" where
  "classify_kernel A a b c w vec i out =
     (let x = vec ! (fst i * w + snd i);
          da = csub A x a;
          db = csub A x b;
          dc = csub A x c;
          da_hyp = hyp A da;
          db_hyp = hyp A db;
          dc_hyp = hyp A dc;
          index = (fst i * w + snd i) * 4
      in if dle A da_hyp db_hyp \<and> dle A da_hyp dc_hyp then out[index := FILL_INTENSITY]
         else if dle A db_hyp da_hyp \<and> dle A db_hyp dc_hyp then out[index + 1 := FILL_INTENSITY]
         else out[index + 2 := FILL_INTENSITY])"

text \<open>
  \<^verbatim>\<open>newton\<close> (lines 33 to 87). The two SYCL buffers view the first \<open>h * w\<close> cells of
  \<^verbatim>\<open>buf\<close> and the first \<open>h * w * 4\<close> bytes of \<^verbatim>\<open>out\<close>, and are copied back when the
  function returns. A vector too short for its view has no defined behaviour in C++:
  the model returns \<open>None\<close> there. A vector holds fewer than \<open>2 ^ 64\<close> elements, so under
  the guard no \<^verbatim>\<open>size_t\<close> expression of the function wraps around.
\<close>

definition newton ::
  "('f, 'd, 'z) arith_scheme \<Rightarrow> 'f cplx \<Rightarrow> 'f cplx \<Rightarrow> 'f cplx \<Rightarrow>
     'f cplx list \<Rightarrow> 8 word list \<Rightarrow> nat \<Rightarrow> nat \<Rightarrow> 'd \<Rightarrow> 'd \<Rightarrow> 'd \<Rightarrow> nat \<Rightarrow>
     ('f cplx list \<times> 8 word list) option" where
  "newton A a b c buf out w h unit left top' iterations =
     (if \<not> (h * w \<le> length buf \<and> h * w * 4 \<le> length out \<and> length out < 2 ^ 64) then None
      else
        let out0 = replicate (length out) (0 :: 8 word);
            sum_abc = cadd A (cadd A a b) c;
            prod_sum = cadd A (cadd A (cmul A a b) (cmul A a c)) (cmul A b c);
            prod_abc = cmul A (cmul A a b) c;
            vec0 = parallel_for h w (seed_kernel A w unit left top') buf;
            vec1 = iterate_loop A sum_abc prod_sum prod_abc h w iterations vec0;
            out1 = parallel_for h w (classify_kernel A a b c w vec1) out0
        in Some (vec1, out1))"

text \<open>
  What the specification calls the update of one iteration, for comparison with
  \<open>newton_step\<close>: \<open>p(z) = z\<^sup>3 - S z\<^sup>2 + Q z - P\<close>, \<open>p'(z) = 3 z\<^sup>2 - 2 S z + Q\<close> and
  \<open>z \<leftarrow> z - p(z) / p'(z)\<close>, with \<open>z\<^sup>2 = z z\<close> and \<open>z\<^sup>3 = z\<^sup>2 z\<close>.
\<close>

definition poly_p :: "('f, 'd, 'z) arith_scheme \<Rightarrow> 'f cplx \<Rightarrow> 'f cplx \<Rightarrow> 'f cplx \<Rightarrow> 'f cplx \<Rightarrow> 'f cplx" where
  "poly_p A S Q P z =
     csub A (cadd A (csub A (cmul A (cmul A z z) z) (cmul A S (cmul A z z))) (cmul A Q z)) P"

definition poly_p' :: "('f, 'd, 'z) arith_scheme \<Rightarrow> 'f cplx \<Rightarrow> 'f cplx \<Rightarrow> 'f cplx \<Rightarrow> 'f cplx" where
  "poly_p' A S Q z =
     cadd A (csub A (cscale A (cmul A z z) (flit A 3)) (cscale A (cmul A S z) (flit A 2))) Q"

definition newton_update :: "('f, 'd, 'z) arith_scheme \<Rightarrow> 'f cplx \<Rightarrow> 'f cplx \<Rightarrow> 'f cplx \<Rightarrow> 'f cplx \<Rightarrow> 'f cplx" where
  "newton_update A S Q P z = csub A z (cdiv A (poly_p A S Q P z) (poly_p' A S Q z))"

text \<open>The channel that the classify pass sets for a final iterate \<open>x\<close>: the offset added to
  \<^verbatim>\<open>index\<close> in the branch taken at lines 81 to 83.\<close>

definition channel :: "('f, 'd, 'z) arith_scheme \<Rightarrow> 'f cplx \<Rightarrow> 'f cplx \<Rightarrow> 'f cplx \<Rightarrow> 'f cplx \<Rightarrow> nat" where
  "channel A a b c x =
     (if dle A (hyp A (csub A x a)) (hyp A (csub A x b)) \<and> dle A (hyp A (csub A x a)) (hyp A (csub A x c)) then 0
      else if dle A (hyp A (csub A x b)) (hyp A (csub A x a)) \<and> dle A (hyp A (csub A x b)) (hyp A (csub A x c)) then 1
      else 2)"

text \<open>The rules of IEEE-754 for NaN that the classify pass meets: a NaN operand makes
  the result of \<open>+\<close>, \<open>-\<close> and \<open>*\<close> a NaN, widening keeps a NaN, and \<^verbatim>\<open><=\<close> is false as
  soon as one side is a NaN.\<close>

definition nan_rules :: "('f, 'd, 'z) arith_scheme \<Rightarrow> bool" where
  "nan_rules A \<longleftrightarrow>
     (\<forall>x y. fnan A x \<or> fnan A y \<longrightarrow> fnan A (fsub A x y)) \<and>
     (\<forall>x y. fnan A x \<or> fnan A y \<longrightarrow> fnan A (fmul A x y)) \<and>
     (\<forall>x y. fnan A x \<or> fnan A y \<longrightarrow> fnan A (fadd A x y)) \<and>
     (\<forall>x. fnan A x \<longrightarrow> dnan A (d_of_f A x)) \<and>
     (\<forall>x y. dnan A x \<or> dnan A y \<longrightarrow> \<not> dle A x y)"

section \<open>The coordinate mapper\<close>

definition coords_to_pix_x :: "('f, 'd, 'z) arith_scheme \<Rightarrow> 'd \<Rightarrow> 'd \<Rightarrow> 'd \<Rightarrow> 'd" where
  "coords_to_pix_x A x left unit_width =
     dmul A (ddiv A (dsub A x left) unit_width) (d_of_int A (int WIDTH))"

definition coords_to_pix_y :: "('f, 'd, 'z) arith_scheme \<Rightarrow> 'd \<Rightarrow> 'd \<Rightarrow> 'd \<Rightarrow> 'd" where
  "coords_to_pix_y A y top' unit_height =
     dmul A (ddiv A (dsub A top' y) unit_height) (d_of_int A (int HEIGHT))"

definition pix_to_coords_x :: "('f, 'd, 'z) arith_scheme \<Rightarrow> 'd \<Rightarrow> 'd \<Rightarrow> 'd \<Rightarrow> 'd" where
  "pix_to_coords_x A x left unit_width =
     dadd A (dmul A (ddiv A x (d_of_int A (int WIDTH))) unit_width) left"

definition pix_to_coords_y :: "('f, 'd, 'z) arith_scheme \<Rightarrow> 'd \<Rightarrow> 'd \<Rightarrow> 'd \<Rightarrow> 'd" where
  "pix_to_coords_y A y top' unit_height =
     dsub A top' (dmul A (ddiv A y (d_of_int A (int HEIGHT))) unit_height)"

definition is_in_range :: "('f, 'd, 'z) arith_scheme \<Rightarrow> 'd \<Rightarrow> 'd \<Rightarrow> 'd \<Rightarrow> 'd \<Rightarrow> bool" where
  "is_in_range A x1 y1 x2 y2 \<longleftrightarrow>
     dlt A (dabs A (dsub A x1 x2)) (dlit A 5) \<and> dlt A (dabs A (dsub A y1 y2)) (dlit A 5)"

section \<open>The state of \<^verbatim>\<open>main\<close> and its events\<close>

record 'f SDL_FRect =
  rect_x :: 'f
  rect_y :: 'f
  rect_w :: 'f
  rect_h :: 'f

text \<open>
  The local variables of \<^verbatim>\<open>main\<close> that the event handlers read or write. The roots
  \<^verbatim>\<open>a\<close>, \<^verbatim>\<open>b\<close>, \<^verbatim>\<open>c\<close> and the edges \<^verbatim>\<open>left\<close>, \<^verbatim>\<open>top\<close> carry a prefix here, their plain
  names being those of the parameters of \<^verbatim>\<open>newton\<close>. \<^verbatim>\<open>iteration_count\<close> is a
  \<^verbatim>\<open>size_t\<close>, of 64 bits; \<^verbatim>\<open>point_dragging_index\<close> is one too, and only ever assigned 0 to 3.
  The array \<^verbatim>\<open>roots[3]\<close> is indexed by constants only and becomes three fields.
  The vectors \<^verbatim>\<open>pixels\<close> and \<^verbatim>\<open>buffer\<close> are written by \<^verbatim>\<open>newton\<close> and read by the
  texture upload alone, and the frame counter feeds the log alone: no handler reads them,
  and the record leaves them out, as it leaves out the lines printed to the log.
\<close>

record ('f, 'd) state =
  running :: bool
  changed :: bool
  iteration_count :: "64 word"
  root_a :: "'f cplx"
  root_b :: "'f cplx"
  root_c :: "'f cplx"
  unit_width :: 'd
  view_left :: 'd
  view_top :: 'd
  unit_height :: 'd
  roots_0 :: "'f SDL_FRect"
  roots_1 :: "'f SDL_FRect"
  roots_2 :: "'f SDL_FRect"
  point_dragging_index :: nat
  position_dragging :: bool

datatype button = SDL_BUTTON_LEFT | SDL_BUTTON_RIGHT | SDL_BUTTON_OTHER

datatype keycode = SDLK_r | SDLK_UP | SDLK_DOWN | SDLK_OTHER

text \<open>The events, with the fields the handlers read (all of type \<^verbatim>\<open>Sint32\<close>):
  button and position; position and relative motion; the wheel's \<^verbatim>\<open>y\<close>.\<close>

datatype event =
    SDL_QUIT
  | SDL_WINDOWEVENT_RESIZED
  | SDL_MOUSEBUTTONUP button
  | SDL_MOUSEBUTTONDOWN button "32 word" "32 word"
  | SDL_MOUSEMOTION "32 word" "32 word" "32 word" "32 word"
  | SDL_MOUSEWHEEL "32 word"
  | SDL_KEYDOWN keycode
  | SDL_OTHER_EVENT

record keyboard =
  SDL_SCANCODE_A :: bool
  SDL_SCANCODE_D :: bool
  SDL_SCANCODE_W :: bool
  SDL_SCANCODE_S :: bool
  SDL_SCANCODE_LSHIFT :: bool
  SDL_SCANCODE_RSHIFT :: bool
  SDL_SCANCODE_SPACE :: bool

text \<open>\<^verbatim>\<open>unit_width * (static_cast<double>(HEIGHT) / static_cast<double>(WIDTH))\<close>, the
  expression of lines 143, 244, 250, 296 and 303.\<close>

definition height_of :: "('f, 'd, 'z) arith_scheme \<Rightarrow> 'd \<Rightarrow> 'd" where
  "height_of A uw = dmul A uw (ddiv A (d_of_int A (int HEIGHT)) (d_of_int A (int WIDTH)))"

text \<open>The state at line 148, before the first event is polled.\<close>

definition init_state :: "('f, 'd, 'z) arith_scheme \<Rightarrow> ('f, 'd) state" where
  "init_state A =
     \<lparr>running = True, changed = True, iteration_count = ITERATION_COUNT,
      root_a = \<lparr>re = flit A (- 2), im = flit A 1\<rparr>,
      root_b = \<lparr>re = flit A 2, im = flit A 2\<rparr>,
      root_c = \<lparr>re = flit A (- 1), im = flit A (- 2)\<rparr>,
      unit_width = dlit A 10, view_left = dlit A (- 5), view_top = dlit A 4,
      unit_height = height_of A (dlit A 10),
      roots_0 = \<lparr>rect_x = f_of_d A (dlit A 0), rect_y = f_of_d A (dlit A 0),
                 rect_w = f_of_d A (dlit A 10), rect_h = f_of_d A (dlit A 10)\<rparr>,
      roots_1 = \<lparr>rect_x = f_of_d A (dlit A 0), rect_y = f_of_d A (dlit A 0),
                 rect_w = f_of_d A (dlit A 10), rect_h = f_of_d A (dlit A 10)\<rparr>,
      roots_2 = \<lparr>rect_x = f_of_d A (dlit A 0), rect_y = f_of_d A (dlit A 0),
                 rect_w = f_of_d A (dlit A 10), rect_h = f_of_d A (dlit A 10)\<rparr>,
      point_dragging_index = 0, position_dragging = False\<rparr>"

text \<open>The hit test of lines 198, 202 and 206 on the marker \<open>r\<close>, for a button event at
  \<open>(x, y)\<close>.\<close>

definition hits :: "('f, 'd, 'z) arith_scheme \<Rightarrow> 'f SDL_FRect \<Rightarrow> 32 word \<Rightarrow> 32 word \<Rightarrow> bool" where
  "hits A r x y \<longleftrightarrow>
     is_in_range A (dadd A (d_of_f A (rect_x r)) (dlit A 5))
                   (dadd A (d_of_f A (rect_y r)) (dlit A 5))
                   (d_of_int A (sint x)) (d_of_int A (sint y))"

text \<open>The body of the \<^verbatim>\<open>switch\<close> on the event type (lines 180 to 269).\<close>

fun handle_event :: "('f, 'd, 'z) arith_scheme \<Rightarrow> event \<Rightarrow> ('f, 'd) state \<Rightarrow> ('f, 'd) state" where
  "handle_event A SDL_QUIT s = s\<lparr>running := False\<rparr>"
| "handle_event A SDL_WINDOWEVENT_RESIZED s = s\<lparr>changed := True\<rparr>"
| "handle_event A (SDL_MOUSEBUTTONUP bt) s =
     (if bt = SDL_BUTTON_LEFT then s\<lparr>point_dragging_index := 0\<rparr>
      else if bt = SDL_BUTTON_RIGHT then s\<lparr>position_dragging := False\<rparr>
      else s)"
| "handle_event A (SDL_MOUSEBUTTONDOWN bt x y) s =
     (if bt = SDL_BUTTON_LEFT then
        (if hits A (roots_0 s) x y then s\<lparr>changed := True, point_dragging_index := 1\<rparr>
         else if hits A (roots_1 s) x y then s\<lparr>changed := True, point_dragging_index := 2\<rparr>
         else if hits A (roots_2 s) x y then s\<lparr>changed := True, point_dragging_index := 3\<rparr>
         else s)
      else if bt = SDL_BUTTON_RIGHT then s\<lparr>position_dragging := True\<rparr>
      else s)"
| "handle_event A (SDL_MOUSEMOTION mx my xrel yrel) s =
     (if point_dragging_index s \<noteq> 0 then
        (let x = pix_to_coords_x A (d_of_int A (sint mx)) (view_left s) (unit_width s);
             y = pix_to_coords_y A (d_of_int A (sint my)) (view_top s) (unit_height s);
             s1 = s\<lparr>changed := True\<rparr>;
             z = \<lparr>re = f_of_d A x, im = f_of_d A y\<rparr>
         in if point_dragging_index s = 1 then s1\<lparr>root_a := z\<rparr>
            else if point_dragging_index s = 2 then s1\<lparr>root_b := z\<rparr>
            else if point_dragging_index s = 3 then s1\<lparr>root_c := z\<rparr>
            else s1)
      else if position_dragging s then
        s\<lparr>view_left := dsub A (view_left s)
             (ddiv A (dmul A (d_of_int A (sint xrel)) (unit_width s)) (d_of_int A (int WIDTH))),
          view_top := dadd A (view_top s)
             (ddiv A (dmul A (d_of_int A (sint yrel)) (unit_height s)) (d_of_int A (int HEIGHT))),
          changed := True\<rparr>
      else s)"
| "handle_event A (SDL_MOUSEWHEEL wy) s =
     (if wy = 0 then s
      else
        (let top1 = dsub A (view_top s)
                      (dmul A (dmul A (unit_height s) (d_of_int A (sint wy))) (dlit A (1 / 40)));
             left1 = dadd A (view_left s)
                      (dmul A (dmul A (unit_width s) (d_of_int A (sint wy))) (dlit A (1 / 40)));
             uw1 = dmul A (unit_width s) (dpow A (dlit A (19 / 20)) (d_of_int A (sint wy)))
         in s\<lparr>changed := True, view_top := top1, view_left := left1,
              unit_width := uw1, unit_height := height_of A uw1\<rparr>))"
| "handle_event A (SDL_KEYDOWN k) s =
     (if k = SDLK_r then
        s\<lparr>root_a := \<lparr>re = f_of_d A (dlit A (- 2)), im = f_of_d A (dlit A 1)\<rparr>,
          root_b := \<lparr>re = f_of_d A (dlit A 2), im = f_of_d A (dlit A 2)\<rparr>,
          root_c := \<lparr>re = f_of_d A (dlit A (- 1)), im = f_of_d A (dlit A (- 2))\<rparr>,
          unit_width := dlit A 10, view_left := dlit A (- 5), view_top := dlit A 4,
          unit_height := height_of A (dlit A 10),
          point_dragging_index := 0, position_dragging := False,
          iteration_count := 20, changed := True\<rparr>
      else if k = SDLK_UP then
        s\<lparr>iteration_count := iteration_count s + 1, changed := True\<rparr>
      else if k = SDLK_DOWN then
        (let n = (if iteration_count s = 0 then 1 else iteration_count s)
         in s\<lparr>iteration_count := n - 1, changed := True\<rparr>)
      else s)"
| "handle_event A SDL_OTHER_EVENT s = s"

text \<open>The inner loop of line 179: every pending event is handled, in order; \<^verbatim>\<open>break\<close>
  leaves the \<^verbatim>\<open>switch\<close>, not the loop.\<close>

definition poll_events :: "('f, 'd, 'z) arith_scheme \<Rightarrow> event list \<Rightarrow> ('f, 'd) state \<Rightarrow> ('f, 'd) state" where
  "poll_events A evs s = fold (handle_event A) evs s"

text \<open>The held keys (lines 271 to 304): three groups, one after the other.\<close>

definition held_keys_AD :: "('f, 'd, 'z) arith_scheme \<Rightarrow> keyboard \<Rightarrow> ('f, 'd) state \<Rightarrow> ('f, 'd) state" where
  "held_keys_AD A kb s =
     (if SDL_SCANCODE_A kb \<and> SDL_SCANCODE_D kb then s
      else if SDL_SCANCODE_A kb then
        s\<lparr>changed := True, view_left := dsub A (view_left s) (dmul A (unit_width s) (dlit A (1 / 100)))\<rparr>
      else if SDL_SCANCODE_D kb then
        s\<lparr>changed := True, view_left := dadd A (view_left s) (dmul A (unit_width s) (dlit A (1 / 100)))\<rparr>
      else s)"

definition held_keys_WS :: "('f, 'd, 'z) arith_scheme \<Rightarrow> keyboard \<Rightarrow> ('f, 'd) state \<Rightarrow> ('f, 'd) state" where
  "held_keys_WS A kb s =
     (if SDL_SCANCODE_W kb \<and> SDL_SCANCODE_S kb then s
      else if SDL_SCANCODE_S kb then
        s\<lparr>changed := True, view_top := dsub A (view_top s) (dmul A (unit_width s) (dlit A (1 / 100)))\<rparr>
      else if SDL_SCANCODE_W kb then
        s\<lparr>changed := True, view_top := dadd A (view_top s) (dmul A (unit_width s) (dlit A (1 / 100)))\<rparr>
      else s)"

definition held_keys_zoom :: "('f, 'd, 'z) arith_scheme \<Rightarrow> keyboard \<Rightarrow> ('f, 'd) state \<Rightarrow> ('f, 'd) state" where
  "held_keys_zoom A kb s =
     (if (SDL_SCANCODE_LSHIFT kb \<or> SDL_SCANCODE_RSHIFT kb) \<and> SDL_SCANCODE_SPACE kb then s
      else if SDL_SCANCODE_LSHIFT kb \<or> SDL_SCANCODE_RSHIFT kb then
        (let uw1 = dmul A (unit_width s) (dlit A (19 / 20))
         in s\<lparr>changed := True,
              view_top := dsub A (view_top s) (dmul A (unit_height s) (dlit A (1 / 40))),
              view_left := dadd A (view_left s) (dmul A (unit_width s) (dlit A (1 / 40))),
              unit_width := uw1, unit_height := height_of A uw1\<rparr>)
      else if SDL_SCANCODE_SPACE kb then
        (let uw1 = dmul A (unit_width s) (dlit A (21 / 20))
         in s\<lparr>changed := True,
              view_top := dadd A (view_top s) (dmul A (unit_height s) (dlit A (1 / 40))),
              view_left := dsub A (view_left s) (dmul A (unit_width s) (dlit A (1 / 40))),
              unit_width := uw1, unit_height := height_of A uw1\<rparr>)
      else s)"

definition held_keys :: "('f, 'd, 'z) arith_scheme \<Rightarrow> keyboard \<Rightarrow> ('f, 'd) state \<Rightarrow> ('f, 'd) state" where
  "held_keys A kb s = held_keys_zoom A kb (held_keys_WS A kb (held_keys_AD A kb s))"

text \<open>The marker of a root (lines 311 to 316): its projection less 5, stored in the
  \<^verbatim>\<open>float\<close> fields of the rectangle; width and height stay.\<close>

definition marker :: "('f, 'd, 'z) arith_scheme \<Rightarrow> ('f, 'd) state \<Rightarrow> 'f cplx \<Rightarrow> 'f SDL_FRect \<Rightarrow> 'f SDL_FRect" where
  "marker A s z r =
     r\<lparr>rect_x := f_of_d A (dsub A (coords_to_pix_x A (d_of_f A (re z)) (view_left s) (unit_width s)) (dlit A 5)),
       rect_y := f_of_d A (dsub A (coords_to_pix_y A (d_of_f A (im z)) (view_top s) (unit_height s)) (dlit A 5))\<rparr>"

text \<open>The block of lines 305 to 319, as far as the state goes: the call of \<^verbatim>\<open>newton\<close>
  at line 306 writes the two vectors only.\<close>

definition render :: "('f, 'd, 'z) arith_scheme \<Rightarrow> ('f, 'd) state \<Rightarrow> ('f, 'd) state" where
  "render A s =
     (if changed s then
        s\<lparr>roots_0 := marker A s (root_a s) (roots_0 s),
          roots_1 := marker A s (root_b s) (roots_1 s),
          roots_2 := marker A s (root_c s) (roots_2 s),
          changed := False\<rparr>
      else s)"

text \<open>One turn of the outer loop, on the events pending at its start and the keys held.\<close>

definition frame :: "('f, 'd, 'z) arith_scheme \<Rightarrow> event list \<times> keyboard \<Rightarrow> ('f, 'd) state \<Rightarrow> ('f, 'd) state" where
  "frame A inp s = render A (held_keys A (snd inp) (poll_events A (fst inp) s))"

text \<open>
  The loop of line 178 on the input of the frames to come. It ends when \<^verbatim>\<open>running\<close> is
  false at the head of a turn; \<open>None\<close> says that the input was used up with the program
  still running.
\<close>

fun main_loop :: "('f, 'd, 'z) arith_scheme \<Rightarrow> (event list \<times> keyboard) list \<Rightarrow> ('f, 'd) state \<Rightarrow> ('f, 'd) state option" where
  "main_loop A [] s = (if running s then None else Some s)"
| "main_loop A (inp # inps) s = (if running s then main_loop A inps (frame A inp s) else Some s)"

text \<open>What the window library answers during start-up.\<close>

record sdl =
  SDL_Init_ok :: bool             \<comment> \<open>\<^verbatim>\<open>SDL_Init(SDL_INIT_VIDEO) == 0\<close>\<close>
  SDL_CreateWindow_ok :: bool     \<comment> \<open>the result is not \<^verbatim>\<open>NULL\<close>\<close>
  SDL_CreateRenderer_ok :: bool
  SDL_CreateTexture_ok :: bool

text \<open>\<^verbatim>\<open>main\<close> (lines 123 to 336) and its exit code. The label \<^verbatim>\<open>end\<close> releases what
  was created and returns 0. The accelerator queue of line 129 is taken to be there.\<close>

definition end_label :: "int option" where
  "end_label = Some 0"

definition main :: "('f, 'd, 'z) arith_scheme \<Rightarrow> sdl \<Rightarrow> (event list \<times> keyboard) list \<Rightarrow> int option" where
  "main A env inps =
     (if \<not> SDL_Init_ok env then Some 1
      else if \<not> SDL_CreateWindow_ok env then end_label
      else if \<not> SDL_CreateRenderer_ok env then end_label
      else if \<not> SDL_CreateTexture_ok env then end_label
      else (case main_loop A inps (init_state A) of None \<Rightarrow> None | Some s \<Rightarrow> end_label))"

text \<open>The states that \<^verbatim>\<open>main\<close> can be in: the initial one, and any state after an event,
  after the held keys of a frame, or after the rendering block.\<close>

inductive reachable :: "('f, 'd, 'z) arith_scheme \<Rightarrow> ('f, 'd) state \<Rightarrow> bool" for A where
  reach_init: "reachable A (init_state A)"
| reach_event: "reachable A s \<Longrightarrow> reachable A (handle_event A e s)"
| reach_keys: "reachable A s \<Longrightarrow> reachable A (held_keys A kb s)"
| reach_render: "reachable A s \<Longrightarrow> reachable A (render A s)"

text \<open>The two pointer modes of the specification, read off the state: a root is being
  dragged when \<^verbatim>\<open>point_dragging_index\<close> is not 0, the viewport is being panned when
  \<^verbatim>\<open>position_dragging\<close> is set.\<close>

definition DraggingRoot :: "('f, 'd) state \<Rightarrow> bool" where
  "DraggingRoot s \<longleftrightarrow> point_dragging_index s \<noteq> 0"

definition PanningViewport :: "('f, 'd) state \<Rightarrow> bool" where
  "PanningViewport s \<longleftrightarrow> position_dragging s"

section \<open>An arithmetic to run the model on\<close>

text \<open>
  A value is NaN or a rational number; the operations are exact and give NaN as soon as
  an operand is NaN or a divisor is 0. There is no rounding, no infinity and no signed
  zero, so this arithmetic agrees with IEEE-754 wherever the IEEE result is exact and
  neither side divides a non-zero number by zero. It serves to run the definitions on
  concrete inputs of that kind; no general theorem depends on it.
\<close>

datatype fp = NaN | Fin rat

fun fp_lift :: "(rat \<Rightarrow> rat \<Rightarrow> rat) \<Rightarrow> fp \<Rightarrow> fp \<Rightarrow> fp" where
  "fp_lift f (Fin x) (Fin y) = Fin (f x y)"
| "fp_lift f _ _ = NaN"

fun fp_div :: "fp \<Rightarrow> fp \<Rightarrow> fp" where
  "fp_div (Fin x) (Fin y) = (if y = 0 then NaN else Fin (x / y))"
| "fp_div _ _ = NaN"

fun fp_abs :: "fp \<Rightarrow> fp" where
  "fp_abs (Fin x) = Fin \<bar>x\<bar>"
| "fp_abs NaN = NaN"

fun fp_pow :: "fp \<Rightarrow> fp \<Rightarrow> fp" where
  "fp_pow (Fin x) (Fin y) =
     (if y \<noteq> of_int \<lfloor>y\<rfloor> \<or> (x = 0 \<and> y < 0) then NaN
      else if 0 \<le> y then Fin (x ^ nat \<lfloor>y\<rfloor>) else Fin (1 / x ^ nat \<lfloor>- y\<rfloor>))"
| "fp_pow _ _ = NaN"

fun fp_lt :: "fp \<Rightarrow> fp \<Rightarrow> bool" where
  "fp_lt (Fin x) (Fin y) = (x < y)"
| "fp_lt _ _ = False"

fun fp_le :: "fp \<Rightarrow> fp \<Rightarrow> bool" where
  "fp_le (Fin x) (Fin y) = (x \<le> y)"
| "fp_le _ _ = False"

definition fp_cmul :: "fp cplx \<Rightarrow> fp cplx \<Rightarrow> fp cplx" where
  "fp_cmul u v =
     \<lparr>re = fp_lift (-) (fp_lift (*) (re u) (re v)) (fp_lift (*) (im u) (im v)),
      im = fp_lift (+) (fp_lift (*) (re u) (im v)) (fp_lift (*) (im u) (re v))\<rparr>"

definition fp_cdiv :: "fp cplx \<Rightarrow> fp cplx \<Rightarrow> fp cplx" where
  "fp_cdiv u v =
     (let n = fp_lift (+) (fp_lift (*) (re v) (re v)) (fp_lift (*) (im v) (im v))
      in \<lparr>re = fp_div (fp_lift (+) (fp_lift (*) (re u) (re v)) (fp_lift (*) (im u) (im v))) n,
          im = fp_div (fp_lift (-) (fp_lift (*) (im u) (re v)) (fp_lift (*) (re u) (im v))) n\<rparr>)"

definition exact_arith :: "(fp, fp) arith" where
  "exact_arith =
     \<lparr>flit = Fin, dlit = Fin,
      fadd = fp_lift (+), fsub = fp_lift (-), fmul = fp_lift (*),
      cmul = fp_cmul, cdiv = fp_cdiv,
      dadd = fp_lift (+), dsub = fp_lift (-), dmul = fp_lift (*), ddiv = fp_div,
      dabs = fp_abs, dpow = fp_pow, dlt = fp_lt, dle = fp_le,
      d_of_int = (\<lambda>i. Fin (of_int i)), d_of_f = (\<lambda>x. x), f_of_d = (\<lambda>x. x),
      fnan = (\<lambda>x. x = NaN), dnan = (\<lambda>x. x = NaN)\<rparr>"

text \<open>States used as examples below: after a left press on the marker of \<open>a\<close> and a
  right press, both among the events of the first frame; after a right press alone; after
  twenty presses of the Down key.\<close>

definition two_buttons_down :: "(fp, fp) state" where
  "two_buttons_down =
     poll_events exact_arith
       [SDL_MOUSEBUTTONDOWN SDL_BUTTON_LEFT 5 5, SDL_MOUSEBUTTONDOWN SDL_BUTTON_RIGHT 5 5]
       (init_state exact_arith)"

definition right_button_down :: "(fp, fp) state" where
  "right_button_down =
     poll_events exact_arith [SDL_MOUSEBUTTONDOWN SDL_BUTTON_RIGHT 5 5] (init_state exact_arith)"

definition twenty_down :: "(fp, fp) state" where
  "twenty_down = poll_events exact_arith (replicate 20 (SDL_KEYDOWN SDLK_DOWN)) (init_state exact_arith)"

section \<open>Lemmas on the passes\<close>

lemma map_idx_items: "map (\<lambda>i. fst i * w + snd i) (items h w) = [0..<h * w]"
proof (induction h)
  case 0
  show ?case by (simp add: items_def)
next
  case (Suc h)
  have "map (\<lambda>i. fst i * w + snd i) (items (Suc h) w)
      = map (\<lambda>i. fst i * w + snd i) (items h w) @ map (\<lambda>c. c + h * w) [0..<w]"
    by (simp add: items_def comp_def add.commute)
  also have "\<dots> = [0..<h * w] @ [h * w..<w + h * w]"
    by (simp only: Suc.IH map_add_upt)
  also have "\<dots> = [0..<Suc h * w]"
    using upt_add_eq_append [of 0 "h * w" w] by (simp add: add.commute)
  finally show ?case .
qed

lemma set_items: "set (items h w) = {i. fst i < h \<and> snd i < w}"
  by (auto simp: items_def)

lemma idx_lt: "r < h \<Longrightarrow> c < w \<Longrightarrow> r * w + c < h * (w::nat)"
proof -
  assume a: "r < h" "c < w"
  then have "r * w + c < r * w + w" by simp
  also have "\<dots> = Suc r * w" by simp
  also have "\<dots> \<le> h * w" using a(1) by (intro mult_le_mono1) simp
  finally show ?thesis .
qed

lemma idx_inj: "c < w \<Longrightarrow> c' < w \<Longrightarrow> r * w + c = r' * w + c' \<Longrightarrow> r = r' \<and> c = (c'::nat)"
proof -
  assume a: "c < w" "c' < w" "r * w + c = r' * w + c'"
  have "(r * w + c) div w = r" using a(1) by simp
  moreover have "(r' * w + c') div w = r'" using a(2) by simp
  ultimately have "r = r'" using a(3) by metis
  with a(3) show ?thesis by simp
qed

text \<open>A pass whose kernel rewrites the cell of its own index.\<close>

lemma fold_cell_length:
  "length (fold (\<lambda>i v. v[t i := g i v]) its vec) = length vec"
  by (induction its arbitrary: vec) simp_all

lemma fold_cell_other:
  "j \<notin> t ` set its \<Longrightarrow> fold (\<lambda>i v. v[t i := g i (v ! t i)]) its vec ! j = vec ! j"
  by (induction its arbitrary: vec) auto

lemma fold_cell_hit:
  "distinct (map t its) \<Longrightarrow> i \<in> set its \<Longrightarrow> t i < length vec \<Longrightarrow>
   fold (\<lambda>i v. v[t i := g i (v ! t i)]) its vec ! t i = g i (vec ! t i)"
proof (induction its arbitrary: vec)
  case Nil
  then show ?case by simp
next
  case (Cons k its)
  show ?case
  proof (cases "i = k")
    case True
    have "t k \<notin> t ` set its" using Cons.prems(1) by auto
    then show ?thesis using True Cons.prems(3) by (simp add: fold_cell_other)
  next
    case False
    then have mem: "i \<in> set its" using Cons.prems(2) by simp
    have ne: "t k \<noteq> t i" using Cons.prems(1) mem by auto
    have "fold (\<lambda>i v. v[t i := g i (v ! t i)]) its (vec[t k := g k (vec ! t k)]) ! t i
        = g i (vec[t k := g k (vec ! t k)] ! t i)"
      using Cons.prems mem by (intro Cons.IH) simp_all
    then show ?thesis using ne by simp
  qed
qed

lemma parallel_for_cell:
  assumes "r < h" "c < w" "h * w \<le> length vec"
  shows "parallel_for h w (\<lambda>i v. v[fst i * w + snd i := g i (v ! (fst i * w + snd i))]) vec ! (r * w + c)
       = g (r, c) (vec ! (r * w + c))"
proof -
  have d: "distinct (map (\<lambda>i. fst i * w + snd i) (items h w))"
    by (simp add: map_idx_items)
  have m: "(r, c) \<in> set (items h w)" using assms by (simp add: set_items)
  have l: "fst (r, c) * w + snd (r, c) < length vec"
    using idx_lt [OF assms(1,2)] assms(3) by simp
  show ?thesis
    unfolding parallel_for_def
    using fold_cell_hit [where t = "\<lambda>i. fst i * w + snd i" and g = g, OF d m l] by simp
qed

lemma parallel_for_length:
  "length (parallel_for h w (\<lambda>i v. v[t i := g i v]) vec) = length vec"
  unfolding parallel_for_def by (rule fold_cell_length)

lemma channel_less: "channel A a b c x < 3"
  by (simp add: channel_def)

lemma classify_kernel_channel:
  "classify_kernel A a b c w vec i out =
     out[(fst i * w + snd i) * 4 + channel A a b c (vec ! (fst i * w + snd i)) := FILL_INTENSITY]"
  by (simp add: classify_kernel_def channel_def Let_def)

lemma fold_write_length: "length (fold (\<lambda>i out. out[t i := v]) its out) = length out"
  by (induction its arbitrary: out) simp_all

lemma fold_write_nth:
  "j < length out \<Longrightarrow>
   fold (\<lambda>i out. out[t i := v]) its out ! j = (if j \<in> t ` set its then v else out ! j)"
proof (induction its arbitrary: out)
  case Nil
  show ?case by simp
next
  case (Cons k its)
  have "fold (\<lambda>i out. out[t i := v]) its (out[t k := v]) ! j
      = (if j \<in> t ` set its then v else out[t k := v] ! j)"
    using Cons.prems by (intro Cons.IH) simp
  then show ?case using Cons.prems by (auto simp: nth_list_update)
qed

lemma pixel_byte_unique:
  assumes "c < w" "c' < w" "k < 4" "k' < 4" "(r * w + c) * 4 + k = (r' * w + c') * 4 + (k'::nat)"
  shows "r = r' \<and> c = c' \<and> k = k'"
proof -
  have "((r * w + c) * 4 + k) div 4 = r * w + c" using assms(3) by simp
  moreover have "((r' * w + c') * 4 + k') div 4 = r' * w + c'" using assms(4) by simp
  ultimately have e: "r * w + c = r' * w + c'" using assms(5) by metis
  then have "k = k'" using assms(5) by simp
  with idx_inj [OF assms(1,2) e] show ?thesis by simp
qed

lemma classify_pass_byte:
  assumes "r < h" "c < w" "k < 4" "h * w * 4 \<le> n"
  shows "parallel_for h w (classify_kernel A ra rb rc w vec) (replicate n 0) ! ((r * w + c) * 4 + k)
       = (if k = channel A ra rb rc (vec ! (r * w + c)) then FILL_INTENSITY else 0)"
proof -
  let ?t = "\<lambda>i. (fst i * w + snd i) * 4 + channel A ra rb rc (vec ! (fst i * w + snd i))"
  have k: "classify_kernel A ra rb rc w vec = (\<lambda>i out. out[?t i := FILL_INTENSITY])"
    by (intro ext) (rule classify_kernel_channel)
  have "r * w + c < h * w" using assms(1,2) by (rule idx_lt)
  then have j: "(r * w + c) * 4 + k < n" using assms(3,4) by simp
  have m: "((r * w + c) * 4 + k \<in> ?t ` set (items h w)) = (k = channel A ra rb rc (vec ! (r * w + c)))"
  proof
    assume "(r * w + c) * 4 + k \<in> ?t ` set (items h w)"
    then obtain i where i: "i \<in> set (items h w)" "(r * w + c) * 4 + k = ?t i" by auto
    have "snd i < w" using i(1) by (simp add: set_items)
    moreover have "channel A ra rb rc (vec ! (fst i * w + snd i)) < 4"
      using channel_less [of A ra rb rc "vec ! (fst i * w + snd i)"] by simp
    ultimately have "r = fst i \<and> c = snd i \<and> k = channel A ra rb rc (vec ! (fst i * w + snd i))"
      using assms(2,3) i(2) by (intro pixel_byte_unique)
    then show "k = channel A ra rb rc (vec ! (r * w + c))" by simp
  next
    assume "k = channel A ra rb rc (vec ! (r * w + c))"
    moreover have "(r, c) \<in> set (items h w)" using assms(1,2) by (simp add: set_items)
    ultimately show "(r * w + c) * 4 + k \<in> ?t ` set (items h w)" by force
  qed
  show ?thesis
    unfolding parallel_for_def k
    using fold_write_nth [OF _, where t = ?t and v = FILL_INTENSITY and its = "items h w"
        and out = "replicate n 0" and j = "(r * w + c) * 4 + k"] j m
    by simp
qed

lemma classify_pass_length:
  "length (parallel_for h w (classify_kernel A a b c w vec) out) = length out"
proof -
  have k: "classify_kernel A a b c w vec =
      (\<lambda>i out. out[(fst i * w + snd i) * 4 + channel A a b c (vec ! (fst i * w + snd i)) := FILL_INTENSITY])"
    by (intro ext) (rule classify_kernel_channel)
  show ?thesis unfolding parallel_for_def k by (rule fold_write_length)
qed

text \<open>
  The order of the work items does not matter: run over any permutation of the index
  range, each of the three kernels leaves the buffer that the row-major order leaves.
\<close>

lemma cell_kernels_commute:
  assumes "i \<in> set (items h w)" "j \<in> set (items h w)"
  shows "(\<lambda>v. v[fst i * w + snd i := g i (v ! (fst i * w + snd i))]) \<circ>
         (\<lambda>v. v[fst j * w + snd j := g j (v ! (fst j * w + snd j))])
       = (\<lambda>v. v[fst j * w + snd j := g j (v ! (fst j * w + snd j))]) \<circ>
         (\<lambda>v. v[fst i * w + snd i := g i (v ! (fst i * w + snd i))])"
proof (cases "i = j")
  case True
  then show ?thesis by simp
next
  case False
  have "snd i < w" "snd j < w" using assms by (simp_all add: set_items)
  then have "fst i * w + snd i \<noteq> fst j * w + snd j"
    using False idx_inj [of "snd i" w "snd j" "fst i" "fst j"] by (auto simp: prod_eq_iff)
  then show ?thesis
    by (auto simp: fun_eq_iff list_update_swap)
qed

lemma seed_schedule:
  assumes "mset its = mset (items h w)"
  shows "fold (seed_kernel A w unit left top') its vec = parallel_for h w (seed_kernel A w unit left top') vec"
proof -
  have k: "seed_kernel A w unit left top' =
      (\<lambda>i v. v[fst i * w + snd i := (\<lambda>i _. seed_value A unit left top' i) i (v ! (fst i * w + snd i))])"
    by (intro ext) (simp add: seed_kernel_def)
  have s: "set its = set (items h w)" using assms by (rule mset_eq_setD)
  have "fold (\<lambda>i v. v[fst i * w + snd i := G i (v ! (fst i * w + snd i))]) its
      = fold (\<lambda>i v. v[fst i * w + snd i := G i (v ! (fst i * w + snd i))]) (items h w)" for G
    using assms by (rule fold_multiset_equiv [rotated]) (simp add: s cell_kernels_commute)
  then show ?thesis
    unfolding parallel_for_def k by (rule fun_cong)
qed

lemma iterate_schedule:
  assumes "mset its = mset (items h w)"
  shows "fold (iterate_kernel A s q p w) its vec = parallel_for h w (iterate_kernel A s q p w) vec"
proof -
  have k: "iterate_kernel A s q p w =
      (\<lambda>i v. v[fst i * w + snd i := (\<lambda>_. newton_step A s q p) i (v ! (fst i * w + snd i))])"
    by (intro ext) (simp add: iterate_kernel_def)
  have s: "set its = set (items h w)" using assms by (rule mset_eq_setD)
  have "fold (\<lambda>i v. v[fst i * w + snd i := G i (v ! (fst i * w + snd i))]) its
      = fold (\<lambda>i v. v[fst i * w + snd i := G i (v ! (fst i * w + snd i))]) (items h w)" for G
    using assms by (rule fold_multiset_equiv [rotated]) (simp add: s cell_kernels_commute)
  then show ?thesis
    unfolding parallel_for_def k by (rule fun_cong)
qed

lemma classify_schedule:
  assumes "mset its = mset (items h w)"
  shows "fold (classify_kernel A a b c w vec) its out = parallel_for h w (classify_kernel A a b c w vec) out"
proof -
  have "classify_kernel A a b c w vec i \<circ> classify_kernel A a b c w vec j
      = classify_kernel A a b c w vec j \<circ> classify_kernel A a b c w vec i" for i j
    by (cases "(fst i * w + snd i) * 4 + channel A a b c (vec ! (fst i * w + snd i))
          = (fst j * w + snd j) * 4 + channel A a b c (vec ! (fst j * w + snd j))")
      (auto simp: fun_eq_iff classify_kernel_channel list_update_swap)
  then have "fold (classify_kernel A a b c w vec) its = fold (classify_kernel A a b c w vec) (items h w)"
    using assms by (intro fold_multiset_equiv)
  then show ?thesis
    unfolding parallel_for_def by (rule fun_cong)
qed

lemma seed_pass_cell:
  assumes "r < h" "c < w" "h * w \<le> length vec"
  shows "parallel_for h w (seed_kernel A w unit left top') vec ! (r * w + c) = seed_value A unit left top' (r, c)"
proof -
  have k: "seed_kernel A w unit left top' =
      (\<lambda>i v. v[fst i * w + snd i := (\<lambda>i _. seed_value A unit left top' i) i (v ! (fst i * w + snd i))])"
    by (intro ext) (simp add: seed_kernel_def)
  show ?thesis unfolding k using assms by (rule parallel_for_cell)
qed

lemma seed_pass_length:
  "length (parallel_for h w (seed_kernel A w unit left top') vec) = length vec"
proof -
  have k: "seed_kernel A w unit left top' = (\<lambda>i v. v[fst i * w + snd i := (\<lambda>i _. seed_value A unit left top' i) i v])"
    by (intro ext) (simp add: seed_kernel_def)
  show ?thesis unfolding k by (rule parallel_for_length)
qed

lemma iterate_pass_cell:
  assumes "r < h" "c < w" "h * w \<le> length vec"
  shows "parallel_for h w (iterate_kernel A s q p w) vec ! (r * w + c) = newton_step A s q p (vec ! (r * w + c))"
proof -
  have k: "iterate_kernel A s q p w =
      (\<lambda>i v. v[fst i * w + snd i := (\<lambda>_. newton_step A s q p) i (v ! (fst i * w + snd i))])"
    by (intro ext) (simp add: iterate_kernel_def)
  show ?thesis unfolding k using assms by (rule parallel_for_cell)
qed

lemma iterate_pass_length:
  "length (parallel_for h w (iterate_kernel A s q p w) vec) = length vec"
proof -
  have k: "iterate_kernel A s q p w =
      (\<lambda>i v. v[fst i * w + snd i := (\<lambda>i v. newton_step A s q p (v ! (fst i * w + snd i))) i v])"
    by (intro ext) (simp add: iterate_kernel_def)
  show ?thesis unfolding k by (rule parallel_for_length)
qed

lemma iterate_loop_length:
  "length (iterate_loop A s q p h w n vec) = length vec"
  by (induction n arbitrary: vec) (simp_all add: iterate_pass_length)

lemma iterate_loop_cell:
  assumes "r < h" "c < w" "h * w \<le> length vec"
  shows "iterate_loop A s q p h w n vec ! (r * w + c) = (newton_step A s q p ^^ n) (vec ! (r * w + c))"
  using assms(3)
proof (induction n arbitrary: vec)
  case 0
  show ?case by simp
next
  case (Suc n)
  have "iterate_loop A s q p h w (Suc n) vec ! (r * w + c)
      = (newton_step A s q p ^^ n) (parallel_for h w (iterate_kernel A s q p w) vec ! (r * w + c))"
    using Suc.prems by (simp add: Suc.IH iterate_pass_length)
  also have "\<dots> = (newton_step A s q p ^^ n) (newton_step A s q p (vec ! (r * w + c)))"
    using assms(1,2) Suc.prems by (simp add: iterate_pass_cell)
  also have "\<dots> = (newton_step A s q p ^^ Suc n) (vec ! (r * w + c))"
    by (simp add: funpow_swap1)
  finally show ?case .
qed

lemma newton_Some_iff:
  "newton A ra rb rc buf out w h unit left top' iterations = Some (vec', out') \<longleftrightarrow>
     h * w \<le> length buf \<and> h * w * 4 \<le> length out \<and> length out < 2 ^ 64 \<and>
     vec' = iterate_loop A (cadd A (cadd A ra rb) rc)
             (cadd A (cadd A (cmul A ra rb) (cmul A ra rc)) (cmul A rb rc)) (cmul A (cmul A ra rb) rc)
             h w iterations (parallel_for h w (seed_kernel A w unit left top') buf) \<and>
     out' = parallel_for h w (classify_kernel A ra rb rc w vec') (replicate (length out) 0)"
  by (auto simp: newton_def Let_def)

lemma newton_defined:
  assumes "h * w \<le> length buf" "h * w * 4 \<le> length out" "length out < 2 ^ 64"
  shows "\<exists>vec' out'. newton A ra rb rc buf out w h unit left top' iterations = Some (vec', out')"
  using assms by (simp add: newton_Some_iff)

lemma newton_out_byte:
  assumes "newton A ra rb rc buf out w h unit left top' iterations = Some (vec', out')"
    and "r < h" "c < w" "k < 4"
  shows "out' ! ((r * w + c) * 4 + k) = (if k = channel A ra rb rc (vec' ! (r * w + c)) then FILL_INTENSITY else 0)"
proof -
  have g2: "h * w * 4 \<le> length out"
    and o: "out' = parallel_for h w (classify_kernel A ra rb rc w vec') (replicate (length out) 0)"
    using assms(1) by (simp_all add: newton_Some_iff)
  show ?thesis unfolding o using assms(2,3,4) g2 by (rule classify_pass_byte)
qed

lemma newton_vec_cell:
  assumes "newton A ra rb rc buf out w h unit left top' iterations = Some (vec', out')"
    and "r < h" "c < w"
  shows "vec' ! (r * w + c) =
     (newton_step A (cadd A (cadd A ra rb) rc)
        (cadd A (cadd A (cmul A ra rb) (cmul A ra rc)) (cmul A rb rc)) (cmul A (cmul A ra rb) rc) ^^ iterations)
       (seed_value A unit left top' (r, c))"
proof -
  have g1: "h * w \<le> length buf"
    and v: "vec' = iterate_loop A (cadd A (cadd A ra rb) rc)
             (cadd A (cadd A (cmul A ra rb) (cmul A ra rc)) (cmul A rb rc)) (cmul A (cmul A ra rb) rc)
             h w iterations (parallel_for h w (seed_kernel A w unit left top') buf)"
    using assms(1) by (simp_all add: newton_Some_iff)
  have l: "h * w \<le> length (parallel_for h w (seed_kernel A w unit left top') buf)"
    using g1 by (simp add: seed_pass_length)
  show ?thesis
    unfolding v iterate_loop_cell [OF assms(2,3) l] seed_pass_cell [OF assms(2,3) g1] ..
qed

lemma newton_out_length:
  "newton A ra rb rc buf out w h unit left top' iterations = Some (vec', out') \<Longrightarrow> length out' = length out"
  by (simp add: newton_Some_iff classify_pass_length)

lemma pixel_row_col:
  assumes "p < h * (w::nat)"
  shows "p div w < h \<and> p mod w < w \<and> p div w * w + p mod w = p"
proof -
  have w: "0 < w" using assms by (cases w) simp_all
  have "p div w < h" using assms by (simp add: less_mult_imp_div_less)
  then show ?thesis using w by simp
qed

lemma newton_step_update: "newton_step A S Q P = newton_update A S Q P"
  by (intro ext) (simp add: newton_step_def newton_update_def poly_p_def poly_p'_def Let_def)

text \<open>The example arithmetic keeps the NaN rules.\<close>

lemmas kernel_defs = newton_def parallel_for_def items_def seed_kernel_def seed_value_def
  iterate_kernel_def newton_step_def classify_kernel_def hyp_def cadd_def csub_def cscale_def
  exact_arith_def fp_cmul_def fp_cdiv_def FILL_INTENSITY_def Let_def

lemma fp_lift_NaN: "fp_lift f x y = NaN \<longleftrightarrow> x = NaN \<or> y = NaN"
  by (cases x; cases y) simp_all

lemma fp_le_NaN: "x = NaN \<or> y = NaN \<Longrightarrow> \<not> fp_le x y"
  by (cases x; cases y) simp_all

lemma nan_rules_exact: "nan_rules exact_arith"
  by (simp add: nan_rules_def exact_arith_def fp_lift_NaN fp_le_NaN)

section \<open>Properties of the kernel\<close>

text \<open>
  Claim C1. For all roots, every iteration count, every viewport and all dimensions, on
  buffers that hold the \<open>h * w\<close> cells and the \<open>h * w * 4\<close> bytes, \<^verbatim>\<open>newton\<close> returns, and
  in the bytes it returns every pixel \<open>p < h * w\<close> has byte 3 equal to 0 and exactly one of
  its bytes 0, 1 and 2 equal to \<open>FILL_INTENSITY = 255\<close>, the two others being 0. Nothing is
  assumed of the arithmetic, so non-finite iterates are included.
\<close>

theorem newton_colour_exclusive:
  assumes "h * w \<le> length buf" "h * w * 4 \<le> length out" "length out < 2 ^ 64"
  shows "FILL_INTENSITY = 255 \<and>
         (\<exists>vec' out'. newton A a b c buf out w h unit left top' iterations = Some (vec', out') \<and>
           length out' = length out \<and>
           (\<forall>p < h * w.
              out' ! (p * 4 + 3) = 0 \<and>
              (out' ! (p * 4) = FILL_INTENSITY \<and> out' ! (p * 4 + 1) = 0 \<and> out' ! (p * 4 + 2) = 0 \<or>
               out' ! (p * 4) = 0 \<and> out' ! (p * 4 + 1) = FILL_INTENSITY \<and> out' ! (p * 4 + 2) = 0 \<or>
               out' ! (p * 4) = 0 \<and> out' ! (p * 4 + 1) = 0 \<and> out' ! (p * 4 + 2) = FILL_INTENSITY)))"
proof -
  obtain vec' out' where n: "newton A a b c buf out w h unit left top' iterations = Some (vec', out')"
    using newton_defined [OF assms, where A = A and ra = a and rb = b and rc = c and unit = unit
        and left = left and top' = top' and iterations = iterations] by auto
  have px: "out' ! (p * 4 + 3) = 0 \<and>
        (out' ! (p * 4) = FILL_INTENSITY \<and> out' ! (p * 4 + 1) = 0 \<and> out' ! (p * 4 + 2) = 0 \<or>
         out' ! (p * 4) = 0 \<and> out' ! (p * 4 + 1) = FILL_INTENSITY \<and> out' ! (p * 4 + 2) = 0 \<or>
         out' ! (p * 4) = 0 \<and> out' ! (p * 4 + 1) = 0 \<and> out' ! (p * 4 + 2) = FILL_INTENSITY)"
    if p: "p < h * w" for p
  proof -
    define r where "r = p div w"
    define col where "col = p mod w"
    have rc: "r < h" "col < w" and pe: "p = r * w + col"
      using pixel_row_col [OF p] by (simp_all add: r_def col_def)
    define ch where "ch = channel A a b c (vec' ! (r * w + col))"
    have ch3: "ch < 3" unfolding ch_def by (rule channel_less)
    have byte: "out' ! (p * 4 + k) = (if k = ch then FILL_INTENSITY else 0)" if "k < 4" for k
      unfolding pe ch_def using n rc that by (rule newton_out_byte)
    have b0: "out' ! (p * 4) = (if 0 = ch then FILL_INTENSITY else 0)" using byte [of 0] by simp
    have b1: "out' ! (p * 4 + 1) = (if 1 = ch then FILL_INTENSITY else 0)" using byte [of 1] by simp
    have b2: "out' ! (p * 4 + 2) = (if 2 = ch then FILL_INTENSITY else 0)" using byte [of 2] by simp
    have b3: "out' ! (p * 4 + 3) = (if 3 = ch then FILL_INTENSITY else 0)" using byte [of 3] by simp
    consider "ch = 0" | "ch = 1" | "ch = 2" using ch3 by linarith
    then show ?thesis using b0 b1 b2 b3 by cases simp_all
  qed
  have "\<exists>vec' out'. newton A a b c buf out w h unit left top' iterations = Some (vec', out') \<and>
           length out' = length out \<and>
           (\<forall>p < h * w.
              out' ! (p * 4 + 3) = 0 \<and>
              (out' ! (p * 4) = FILL_INTENSITY \<and> out' ! (p * 4 + 1) = 0 \<and> out' ! (p * 4 + 2) = 0 \<or>
               out' ! (p * 4) = 0 \<and> out' ! (p * 4 + 1) = FILL_INTENSITY \<and> out' ! (p * 4 + 2) = 0 \<or>
               out' ! (p * 4) = 0 \<and> out' ! (p * 4 + 1) = 0 \<and> out' ! (p * 4 + 2) = FILL_INTENSITY))"
    using n newton_out_length [OF n] px by blast
  then show ?thesis by (simp add: FILL_INTENSITY_def)
qed

text \<open>The theorem at a row of two pixels, on an output buffer that starts full of 7s.\<close>

theorem newton_colour_exclusive_witness:
  "(1::nat) * 2 \<le> length (replicate 2 \<lparr>re = Fin 0, im = Fin 0\<rparr>) \<and>
   (1::nat) * 2 * 4 \<le> length (replicate 8 (7 :: 8 word)) \<and>
   length (replicate 8 (7 :: 8 word)) < 2 ^ 64 \<and>
   FILL_INTENSITY = 255 \<and>
   (\<exists>vec' out'. newton exact_arith \<lparr>re = Fin 1, im = Fin 0\<rparr> \<lparr>re = Fin (- 1), im = Fin 0\<rparr> \<lparr>re = Fin 0, im = Fin 2\<rparr>
       (replicate 2 \<lparr>re = Fin 0, im = Fin 0\<rparr>) (replicate 8 7) 2 1 (Fin 4) (Fin (- 2)) (Fin 0) 3
       = Some (vec', out') \<and>
     length out' = 8 \<and>
     (\<forall>p < 2.
        out' ! (p * 4 + 3) = 0 \<and>
        (out' ! (p * 4) = FILL_INTENSITY \<and> out' ! (p * 4 + 1) = 0 \<and> out' ! (p * 4 + 2) = 0 \<or>
         out' ! (p * 4) = 0 \<and> out' ! (p * 4 + 1) = FILL_INTENSITY \<and> out' ! (p * 4 + 2) = 0 \<or>
         out' ! (p * 4) = 0 \<and> out' ! (p * 4 + 1) = 0 \<and> out' ! (p * 4 + 2) = FILL_INTENSITY)))"
  using newton_colour_exclusive [of 1 2 "replicate 2 \<lparr>re = Fin 0, im = Fin 0\<rparr>" "replicate 8 7"
      exact_arith "\<lparr>re = Fin 1, im = Fin 0\<rparr>" "\<lparr>re = Fin (- 1), im = Fin 0\<rparr>" "\<lparr>re = Fin 0, im = Fin 2\<rparr>"
      "Fin 4" "Fin (- 2)" "Fin 0" 3]
  by simp

text \<open>
  Claim C4. For every pixel \<open>(r, col)\<close> and every iteration count \<open>N\<close>, the cell of the work
  buffer that \<^verbatim>\<open>newton\<close> leaves is the seed of the pixel after exactly \<open>N\<close> applications of
  \<open>z \<leftarrow> z - p(z) / p'(z)\<close>, with \<open>S = a + b + c\<close>, \<open>Q = a b + a c + b c\<close> and \<open>P = a b c\<close>
  computed once, before the passes. The quotient is the library's complex division on
  every \<open>z\<close>, with no test of \<open>p'(z)\<close>, and all of it is arithmetic on the single-precision
  type \<open>'f\<close>.
\<close>

theorem newton_iterates_exactly_N:
  assumes "h * w \<le> length buf" "h * w * 4 \<le> length out" "length out < 2 ^ 64"
    and "r < h" "col < w"
  shows "\<exists>vec' out'. newton A a b c buf out w h unit left top' N = Some (vec', out') \<and>
           vec' ! (r * w + col) =
             (newton_update A (cadd A (cadd A a b) c)
                (cadd A (cadd A (cmul A a b) (cmul A a c)) (cmul A b c))
                (cmul A (cmul A a b) c) ^^ N)
               (seed_value A unit left top' (r, col))"
proof -
  obtain vec' out' where n: "newton A a b c buf out w h unit left top' N = Some (vec', out')"
    using newton_defined [OF assms(1,2,3), where A = A and ra = a and rb = b and rc = c and unit = unit
        and left = left and top' = top' and iterations = N] by auto
  show ?thesis
    using n newton_vec_cell [OF n assms(4,5)] by (simp add: newton_step_update)
qed

text \<open>
  The steps of the iterate pass in the words of the code and in those of the
  specification give the same cell, here after one step from the seed \<open>2\<close> of pixel
  \<open>(0, 1)\<close>, for the roots \<open>1\<close>, \<open>-1\<close> and \<open>2i\<close>: \<open>2 - (6 - 6i) / (11 - 8i)\<close>.
\<close>

theorem newton_iterates_exactly_N_witness:
  "(1::nat) * 2 \<le> length (replicate 2 \<lparr>re = Fin 0, im = Fin 0\<rparr>) \<and>
   (1::nat) * 2 * 4 \<le> length (replicate 8 (7 :: 8 word)) \<and>
   length (replicate 8 (7 :: 8 word)) < 2 ^ 64 \<and> (0::nat) < 1 \<and> (1::nat) < 2 \<and>
   (\<exists>vec' out'. newton exact_arith \<lparr>re = Fin 1, im = Fin 0\<rparr> \<lparr>re = Fin (- 1), im = Fin 0\<rparr> \<lparr>re = Fin 0, im = Fin 2\<rparr>
       (replicate 2 \<lparr>re = Fin 0, im = Fin 0\<rparr>) (replicate 8 7) 2 1 (Fin 4) (Fin (- 2)) (Fin 0) 1
       = Some (vec', out') \<and>
     vec' ! (0 * 2 + 1) = \<lparr>re = Fin (256 / 185), im = Fin (18 / 185)\<rparr>)"
  using newton_iterates_exactly_N [of 1 2 "replicate 2 \<lparr>re = Fin 0, im = Fin 0\<rparr>" "replicate 8 7" 0 1
      exact_arith "\<lparr>re = Fin 1, im = Fin 0\<rparr>" "\<lparr>re = Fin (- 1), im = Fin 0\<rparr>" "\<lparr>re = Fin 0, im = Fin 2\<rparr>"
      "Fin 4" "Fin (- 2)" "Fin 0" 1]
  by (simp add: newton_update_def poly_p_def poly_p'_def seed_value_def cadd_def csub_def cscale_def
      exact_arith_def fp_cmul_def fp_cdiv_def Let_def)

text \<open>
  Claim C9. Under the NaN rules of IEEE-754, a pixel whose final iterate has a NaN
  component makes each of the four comparisons of the classify pass false, so that the
  last branch is taken: byte 2, the channel of root \<open>c\<close>, is \<open>FILL_INTENSITY\<close> and bytes 0
  and 1 are 0.
\<close>

theorem nan_iterate_colours_root_c:
  assumes "nan_rules A"
    and "newton A a b c buf out w h unit left top' N = Some (vec', out')"
    and "r < h" "col < w"
    and "fnan A (re (vec' ! (r * w + col))) \<or> fnan A (im (vec' ! (r * w + col)))"
  shows "\<not> dle A (hyp A (csub A (vec' ! (r * w + col)) a)) (hyp A (csub A (vec' ! (r * w + col)) b)) \<and>
         \<not> dle A (hyp A (csub A (vec' ! (r * w + col)) a)) (hyp A (csub A (vec' ! (r * w + col)) c)) \<and>
         \<not> dle A (hyp A (csub A (vec' ! (r * w + col)) b)) (hyp A (csub A (vec' ! (r * w + col)) a)) \<and>
         \<not> dle A (hyp A (csub A (vec' ! (r * w + col)) b)) (hyp A (csub A (vec' ! (r * w + col)) c)) \<and>
         out' ! ((r * w + col) * 4) = 0 \<and>
         out' ! ((r * w + col) * 4 + 1) = 0 \<and>
         out' ! ((r * w + col) * 4 + 2) = FILL_INTENSITY"
proof -
  define x where "x = vec' ! (r * w + col)"
  have nan_hyp: "dnan A (hyp A (csub A x y))" for y
  proof -
    have "fnan A (re (csub A x y)) \<or> fnan A (im (csub A x y))"
      using assms(1,5) by (auto simp: nan_rules_def csub_def x_def)
    then have "fnan A (fmul A (re (csub A x y)) (re (csub A x y))) \<or>
               fnan A (fmul A (im (csub A x y)) (im (csub A x y)))"
      using assms(1) by (auto simp: nan_rules_def)
    then have "fnan A (fadd A (fmul A (re (csub A x y)) (re (csub A x y)))
                              (fmul A (im (csub A x y)) (im (csub A x y))))"
      using assms(1) by (auto simp: nan_rules_def)
    then show ?thesis using assms(1) by (simp add: nan_rules_def hyp_def)
  qed
  have cmp: "\<not> dle A (hyp A (csub A x y)) (hyp A (csub A x y'))" for y y'
    using assms(1) nan_hyp [of y] by (simp add: nan_rules_def)
  have ch: "channel A a b c x = 2" by (simp add: channel_def cmp)
  have byte: "out' ! ((r * w + col) * 4 + k) = (if k = 2 then FILL_INTENSITY else 0)" if "k < 4" for k
    using newton_out_byte [OF assms(2,3,4) that] ch by (simp add: x_def)
  have "out' ! ((r * w + col) * 4) = 0" using byte [of 0] by simp
  moreover have "out' ! ((r * w + col) * 4 + 1) = 0" using byte [of 1] by simp
  moreover have "out' ! ((r * w + col) * 4 + 2) = FILL_INTENSITY" using byte [of 2] by simp
  ultimately show ?thesis using cmp by (simp add: x_def)
qed

text \<open>
  One pixel seeded at 0 with the three roots at 0: the first step divides \<open>0\<close> by \<open>0\<close>, the
  iterate is NaN in both components, and the pixel gets the colour of root \<open>c\<close>.
\<close>

theorem nan_iterate_colours_root_c_witness:
  "nan_rules exact_arith \<and>
   newton exact_arith \<lparr>re = Fin 0, im = Fin 0\<rparr> \<lparr>re = Fin 0, im = Fin 0\<rparr> \<lparr>re = Fin 0, im = Fin 0\<rparr>
     [\<lparr>re = Fin 0, im = Fin 0\<rparr>] [7, 7, 7, 7] 1 1 (Fin 1) (Fin 0) (Fin 0) 1
     = Some ([\<lparr>re = NaN, im = NaN\<rparr>], [0, 0, 255, 0]) \<and>
   fnan exact_arith (re ([\<lparr>re = NaN, im = NaN\<rparr>] ! (0 * 1 + 0))) \<and>
   [0, 0, 255, 0 :: 8 word] ! ((0 * 1 + 0) * 4) = 0 \<and>
   [0, 0, 255, 0 :: 8 word] ! ((0 * 1 + 0) * 4 + 1) = 0 \<and>
   [0, 0, 255, 0 :: 8 word] ! ((0 * 1 + 0) * 4 + 2) = FILL_INTENSITY"
proof -
  have n: "newton exact_arith \<lparr>re = Fin 0, im = Fin 0\<rparr> \<lparr>re = Fin 0, im = Fin 0\<rparr> \<lparr>re = Fin 0, im = Fin 0\<rparr>
     [\<lparr>re = Fin 0, im = Fin 0\<rparr>] [7, 7, 7, 7] 1 1 (Fin 1) (Fin 0) (Fin 0) 1
     = Some ([\<lparr>re = NaN, im = NaN\<rparr>], [0, 0, 255, 0])"
    by (simp add: kernel_defs)
  have f: "fnan exact_arith (re ([\<lparr>re = NaN, im = NaN\<rparr>] ! (0 * 1 + 0))) \<or>
           fnan exact_arith (im ([\<lparr>re = NaN, im = NaN\<rparr>] ! (0 * 1 + 0)))"
    by (simp add: exact_arith_def)
  show ?thesis
    using nan_iterate_colours_root_c [OF nan_rules_exact n _ _ f] n nan_rules_exact
    by (simp add: exact_arith_def)
qed

section \<open>Properties of the interaction\<close>

lemma reachable_poll_events: "reachable A s \<Longrightarrow> reachable A (poll_events A evs s)"
  unfolding poll_events_def
  by (induction evs arbitrary: s) (simp_all add: reach_event)

lemma reachable_frame: "reachable A s \<Longrightarrow> reachable A (frame A inp s)"
  unfolding frame_def by (intro reach_render reach_keys reachable_poll_events)

text \<open>The state in which the loop of \<^verbatim>\<open>main\<close> ends is one of the reachable states.\<close>

lemma reachable_main_loop:
  "reachable A s \<Longrightarrow> main_loop A inps s = Some s' \<Longrightarrow> reachable A s'"
proof (induction inps arbitrary: s)
  case Nil
  then show ?case by (simp split: if_splits)
next
  case (Cons inp inps)
  show ?case
  proof (cases "running s")
    case True
    then have "main_loop A inps (frame A inp s) = Some s'" using Cons.prems(2) by simp
    with Cons.IH [OF reachable_frame [OF Cons.prems(1)]] show ?thesis .
  next
    case False
    then show ?thesis using Cons.prems by simp
  qed
qed

lemma hits_centre_init:
  "hits exact_arith (roots_0 (init_state exact_arith)) 5 5"
  "hits exact_arith (roots_1 (init_state exact_arith)) 5 5"
  "hits exact_arith (roots_2 (init_state exact_arith)) 5 5"
  by (simp_all add: hits_def is_in_range_def init_state_def exact_arith_def)

lemma two_buttons_down_eq:
  "two_buttons_down =
     (init_state exact_arith)\<lparr>changed := True, point_dragging_index := 1, position_dragging := True\<rparr>"
  by (simp add: two_buttons_down_def poll_events_def hits_centre_init)

lemma right_button_down_eq:
  "right_button_down = (init_state exact_arith)\<lparr>position_dragging := True\<rparr>"
  by (simp add: right_button_down_def poll_events_def)

text \<open>Pressing Down as often as the count says brings the count to 0.\<close>

lemma down_steps:
  "unat (iteration_count s) = n \<Longrightarrow>
   iteration_count (poll_events A (replicate n (SDL_KEYDOWN SDLK_DOWN)) s) = 0"
proof (induction n arbitrary: s)
  case 0
  then show ?case by (simp add: poll_events_def unat_eq_0)
next
  case (Suc n)
  have nz: "iteration_count s \<noteq> 0" using Suc.prems by (auto simp: unat_eq_0)
  have "unat (iteration_count s - 1) = n"
    using Suc.prems nz by (simp add: unat_minus_one)
  then have "unat (iteration_count (handle_event A (SDL_KEYDOWN SDLK_DOWN) s)) = n"
    using nz by simp
  from Suc.IH [OF this] show ?case by (simp add: poll_events_def)
qed

text \<open>The keys and the rendering block leave \<^verbatim>\<open>running\<close> as it is.\<close>

lemma running_held_keys: "running (held_keys A kb s) = running s"
  by (simp add: held_keys_def held_keys_AD_def held_keys_WS_def held_keys_zoom_def Let_def)

lemma running_render: "running (render A s) = running s"
  by (simp add: render_def)

text \<open>
  Every assignment to \<^verbatim>\<open>unit_width\<close> is followed by the assignment of
  \<^verbatim>\<open>unit_width * (HEIGHT / WIDTH)\<close> to \<^verbatim>\<open>unit_height\<close>, so the second is that product of
  doubles in every state. How far the product is from the real number
  \<open>unit_width * 768 / 1024\<close> is a matter of IEEE rounding, outside this model.
\<close>

lemma unit_height_recomputed: "reachable A s \<Longrightarrow> unit_height s = height_of A (unit_width s)"
proof (induction rule: reachable.induct)
  case reach_init
  show ?case by (simp add: init_state_def)
next
  case (reach_event s e)
  then show ?case by (cases e) (simp_all add: Let_def)
next
  case (reach_keys s kb)
  then show ?case
    by (simp add: held_keys_def held_keys_AD_def held_keys_WS_def held_keys_zoom_def Let_def)
next
  case (reach_render s)
  then show ?case by (simp add: render_def)
qed

text \<open>
  Claim C2, as stated, fails. In the first frame the three markers are the squares
  \<open>{0, 0, 10, 10}\<close> of line 144; a left press at \<open>(5, 5)\<close> hits the marker of \<open>a\<close>, a right
  press follows with no release between, and the state reached has \<open>DraggingRoot\<close> and
  \<open>PanningViewport\<close> active together. (All arithmetic on the way is on small integers,
  where it is exact.)
\<close>

theorem drag_and_pan_both_active:
  "reachable exact_arith two_buttons_down \<and>
   two_buttons_down =
     poll_events exact_arith
       [SDL_MOUSEBUTTONDOWN SDL_BUTTON_LEFT 5 5, SDL_MOUSEBUTTONDOWN SDL_BUTTON_RIGHT 5 5]
       (init_state exact_arith) \<and>
   DraggingRoot two_buttons_down \<and> PanningViewport two_buttons_down"
proof -
  have "reachable exact_arith two_buttons_down"
    unfolding two_buttons_down_def by (intro reachable_poll_events reach_init)
  moreover have "DraggingRoot two_buttons_down \<and> PanningViewport two_buttons_down"
    by (simp add: two_buttons_down_eq DraggingRoot_def PanningViewport_def)
  ultimately show ?thesis by (simp add: two_buttons_down_def)
qed

text \<open>
  Claim C2, amended. The two modes are set independently: a left press leaves
  \<open>PanningViewport\<close> as it is and a right press leaves \<open>DraggingRoot\<close> as it is, so both
  can be active. Exclusive is what a pointer motion does: while \<open>DraggingRoot\<close> is active it
  leaves the edges \<^verbatim>\<open>left\<close> and \<^verbatim>\<open>top\<close> of the viewport unchanged (the motion goes to the
  dragged root), and it leaves the three roots unchanged whenever \<open>DraggingRoot\<close> is not
  active (the motion then pans, if \<open>PanningViewport\<close> is active).
\<close>

theorem motion_applies_one_mode:
  "PanningViewport (handle_event A (SDL_MOUSEBUTTONDOWN SDL_BUTTON_LEFT x y) s) = PanningViewport s \<and>
   DraggingRoot (handle_event A (SDL_MOUSEBUTTONDOWN SDL_BUTTON_RIGHT x y) s) = DraggingRoot s \<and>
   (DraggingRoot s \<longrightarrow>
      view_left (handle_event A (SDL_MOUSEMOTION mx my xrel yrel) s) = view_left s \<and>
      view_top (handle_event A (SDL_MOUSEMOTION mx my xrel yrel) s) = view_top s) \<and>
   (\<not> DraggingRoot s \<longrightarrow>
      root_a (handle_event A (SDL_MOUSEMOTION mx my xrel yrel) s) = root_a s \<and>
      root_b (handle_event A (SDL_MOUSEMOTION mx my xrel yrel) s) = root_b s \<and>
      root_c (handle_event A (SDL_MOUSEMOTION mx my xrel yrel) s) = root_c s)"
  by (simp add: DraggingRoot_def PanningViewport_def Let_def)

text \<open>
  With both buttons down, a motion to \<open>(512, 384)\<close> moves root \<open>a\<close> to \<open>(0, 0.25)\<close> and not
  the viewport; with the right button alone, the same motion moves the left edge from
  \<open>-5\<close> to \<open>-5 - 507 * 10 / 1024\<close> and no root.
\<close>

theorem motion_applies_one_mode_witness:
  "DraggingRoot two_buttons_down \<and>
   view_left (handle_event exact_arith (SDL_MOUSEMOTION 512 384 507 379) two_buttons_down) = Fin (- 5) \<and>
   view_top (handle_event exact_arith (SDL_MOUSEMOTION 512 384 507 379) two_buttons_down) = Fin 4 \<and>
   root_a (handle_event exact_arith (SDL_MOUSEMOTION 512 384 507 379) two_buttons_down)
     = \<lparr>re = Fin 0, im = Fin (1 / 4)\<rparr> \<and>
   \<not> DraggingRoot right_button_down \<and>
   root_a (handle_event exact_arith (SDL_MOUSEMOTION 512 384 507 379) right_button_down)
     = \<lparr>re = Fin (- 2), im = Fin 1\<rparr> \<and>
   view_left (handle_event exact_arith (SDL_MOUSEMOTION 512 384 507 379) right_button_down)
     = Fin (- 5 - 5070 / 1024)"
proof -
  have d: "DraggingRoot two_buttons_down"
    by (simp add: two_buttons_down_eq DraggingRoot_def)
  have n: "\<not> DraggingRoot right_button_down"
    by (simp add: right_button_down_eq DraggingRoot_def init_state_def)
  have a: "root_a (handle_event exact_arith (SDL_MOUSEMOTION 512 384 507 379) two_buttons_down)
     = \<lparr>re = Fin 0, im = Fin (1 / 4)\<rparr>"
    by (simp add: two_buttons_down_eq init_state_def pix_to_coords_x_def pix_to_coords_y_def
        height_of_def WIDTH_def HEIGHT_def exact_arith_def Let_def)
  have l: "view_left (handle_event exact_arith (SDL_MOUSEMOTION 512 384 507 379) right_button_down)
     = Fin (- 5 - 5070 / 1024)"
    by (simp add: right_button_down_eq init_state_def WIDTH_def exact_arith_def)
  have i: "view_left two_buttons_down = Fin (- 5)" "view_top two_buttons_down = Fin 4"
    "root_a right_button_down = \<lparr>re = Fin (- 2), im = Fin 1\<rparr>"
    by (simp_all add: two_buttons_down_eq right_button_down_eq init_state_def exact_arith_def)
  show ?thesis
    using motion_applies_one_mode [of exact_arith 0 0 two_buttons_down 512 384 507 379]
      motion_applies_one_mode [of exact_arith 0 0 right_button_down 512 384 507 379]
      d n a l i
    by simp
qed

text \<open>
  Claim C3 against the code. When \<^verbatim>\<open>SDL_Init\<close> fails, \<^verbatim>\<open>main\<close> returns 1. When the window,
  the renderer or the texture cannot be created, it jumps to \<^verbatim>\<open>end\<close> and returns 0, the
  exit code of a normal close after a Quit event.
\<close>

theorem main_exit_codes:
  "main A \<lparr>SDL_Init_ok = False, SDL_CreateWindow_ok = wn, SDL_CreateRenderer_ok = rn,
           SDL_CreateTexture_ok = tx\<rparr> inps = Some 1 \<and>
   main A \<lparr>SDL_Init_ok = True, SDL_CreateWindow_ok = False, SDL_CreateRenderer_ok = rn,
           SDL_CreateTexture_ok = tx\<rparr> inps = Some 0 \<and>
   main A \<lparr>SDL_Init_ok = True, SDL_CreateWindow_ok = True, SDL_CreateRenderer_ok = False,
           SDL_CreateTexture_ok = tx\<rparr> inps = Some 0 \<and>
   main A \<lparr>SDL_Init_ok = True, SDL_CreateWindow_ok = True, SDL_CreateRenderer_ok = True,
           SDL_CreateTexture_ok = False\<rparr> inps = Some 0 \<and>
   main A \<lparr>SDL_Init_ok = True, SDL_CreateWindow_ok = True, SDL_CreateRenderer_ok = True,
           SDL_CreateTexture_ok = True\<rparr> [([SDL_QUIT], kb)] = Some 0"
  by (simp add: main_def end_label_def frame_def poll_events_def running_held_keys running_render
      init_state_def)

theorem main_exit_codes_witness:
  "main exact_arith \<lparr>SDL_Init_ok = True, SDL_CreateWindow_ok = False, SDL_CreateRenderer_ok = False,
           SDL_CreateTexture_ok = False\<rparr> [] = Some 0"
  using main_exit_codes [of exact_arith False False False "[]"] by simp

text \<open>
  Claim C7. The count is a \<^verbatim>\<open>size_t\<close>, so it is never negative. It starts at 20; the Up
  key adds 1 (in the arithmetic of \<^verbatim>\<open>size_t\<close>, so the integer grows by 1 below
  \<open>2\<^sup>6\<^sup>4 - 1\<close>); the Down key at 0 leaves 0. This holds in every state, reachable or not.
\<close>

theorem iteration_count_steps:
  "iteration_count (init_state A) = 20 \<and>
   iteration_count (handle_event A (SDL_KEYDOWN SDLK_UP) s) = iteration_count s + 1 \<and>
   (unat (iteration_count s) < 2 ^ 64 - 1 \<longrightarrow>
      unat (iteration_count (handle_event A (SDL_KEYDOWN SDLK_UP) s)) = unat (iteration_count s) + 1) \<and>
   (iteration_count s = 0 \<longrightarrow> iteration_count (handle_event A (SDL_KEYDOWN SDLK_DOWN) s) = 0) \<and>
   (0::int) \<le> uint (iteration_count s)"
proof -
  have "unat (iteration_count s + 1) = unat (iteration_count s) + 1"
    if "unat (iteration_count s) < 2 ^ 64 - 1"
    using that by (simp add: unat_word_ariths)
  then show ?thesis
    by (simp add: init_state_def ITERATION_COUNT_def)
qed

text \<open>After twenty presses of Down from the start the count is 0, and one more leaves it
  there; one press of Up from the start gives 21.\<close>

theorem iteration_count_steps_witness:
  "reachable exact_arith twenty_down \<and>
   iteration_count twenty_down = 0 \<and>
   iteration_count (handle_event exact_arith (SDL_KEYDOWN SDLK_DOWN) twenty_down) = 0 \<and>
   unat (iteration_count (init_state exact_arith)) < 2 ^ 64 - 1 \<and>
   unat (iteration_count (handle_event exact_arith (SDL_KEYDOWN SDLK_UP) (init_state exact_arith))) = 21"
proof -
  have r: "reachable exact_arith twenty_down"
    unfolding twenty_down_def by (intro reachable_poll_events reach_init)
  have "unat (iteration_count (init_state exact_arith)) = 20"
    by (simp add: init_state_def ITERATION_COUNT_def)
  then have z: "iteration_count twenty_down = 0"
    unfolding twenty_down_def by (rule down_steps)
  have u: "unat (iteration_count (init_state exact_arith)) < 2 ^ 64 - 1"
    by (simp add: init_state_def ITERATION_COUNT_def)
  show ?thesis
    using iteration_count_steps [of exact_arith twenty_down]
      iteration_count_steps [of exact_arith "init_state exact_arith"] r z u
    by (simp add: init_state_def ITERATION_COUNT_def)
qed

text \<open>
  Claim C10. A left press tests the markers of \<open>a\<close>, \<open>b\<close>, \<open>c\<close> in this order and the first
  that passes sets \<^verbatim>\<open>point_dragging_index\<close> to 1, 2 or 3; when none passes the index stays.
  A marker passes exactly when both \<open>|centre_x - pointer_x| < 5\<close> and
  \<open>|centre_y - pointer_y| < 5\<close> hold in double arithmetic, the centre being the corner of the
  rectangle plus 5: an open square.
\<close>

theorem left_down_hit_order:
  "point_dragging_index (handle_event A (SDL_MOUSEBUTTONDOWN SDL_BUTTON_LEFT x y) s) =
     (if hits A (roots_0 s) x y then 1
      else if hits A (roots_1 s) x y then 2
      else if hits A (roots_2 s) x y then 3
      else point_dragging_index s) \<and>
   (hits A r x y \<longleftrightarrow>
      dlt A (dabs A (dsub A (dadd A (d_of_f A (rect_x r)) (dlit A 5)) (d_of_int A (sint x)))) (dlit A 5) \<and>
      dlt A (dabs A (dsub A (dadd A (d_of_f A (rect_y r)) (dlit A 5)) (d_of_int A (sint y)))) (dlit A 5))"
  by (simp add: hits_def is_in_range_def)

text \<open>
  At the start the three markers lie on each other, with centre \<open>(5, 5)\<close>. A press at the
  centre passes all three tests and drags \<open>a\<close>. A press at \<open>(9, 9)\<close> passes although it is
  further than 5 from the centre; a press at \<open>(10, 5)\<close>, at distance 5, does not.
\<close>

theorem left_down_hit_order_witness:
  "hits exact_arith (roots_0 (init_state exact_arith)) 5 5 \<and>
   hits exact_arith (roots_1 (init_state exact_arith)) 5 5 \<and>
   hits exact_arith (roots_2 (init_state exact_arith)) 5 5 \<and>
   point_dragging_index
     (handle_event exact_arith (SDL_MOUSEBUTTONDOWN SDL_BUTTON_LEFT 5 5) (init_state exact_arith)) = 1 \<and>
   hits exact_arith (roots_0 (init_state exact_arith)) 9 9 \<and>
   \<not> hits exact_arith (roots_0 (init_state exact_arith)) 10 5"
proof -
  have "hits exact_arith (roots_0 (init_state exact_arith)) 9 9"
    using left_down_hit_order [of exact_arith 9 9 "init_state exact_arith" "roots_0 (init_state exact_arith)"]
    by (simp add: init_state_def exact_arith_def)
  moreover have "\<not> hits exact_arith (roots_0 (init_state exact_arith)) 10 5"
    using left_down_hit_order [of exact_arith 10 5 "init_state exact_arith" "roots_0 (init_state exact_arith)"]
    by (simp add: init_state_def exact_arith_def)
  ultimately show ?thesis
    using left_down_hit_order [of exact_arith 5 5 "init_state exact_arith" "roots_0 (init_state exact_arith)"]
      hits_centre_init
    by simp
qed

end
